theory Spec2Isabelle
  imports Complex_Main
begin

section \<open>Data model\<close>

text \<open>
  The repository is a Python decision-tree classifier (\<^verbatim>\<open>PointSet.py\<close>, \<^verbatim>\<open>Tree.py\<close>).
  Feature values, thresholds, Gini scores and the factor \<^verbatim>\<open>beta\<close> are Python floats; they
  are embedded as exact rationals, so every statement below is about the arithmetic the
  source writes down, not about IEEE rounding. Counters and counts are Python integers.
  Every exception the source can raise is a value of \<open>error\<close>.
\<close>

datatype FeaturesTypes = BOOLEAN | CLASSES | REAL

datatype error =
    InvalidState        \<comment> \<open>\<^verbatim>\<open>Exception('Please call get_best_gain() first')\<close>\<close>
  | IndexError
  | ZeroDivisionError
  | ValueError          \<comment> \<open>numpy refuses a ragged feature matrix\<close>
  | TypeError
  | AttributeError      \<comment> \<open>\<^verbatim>\<open>self.left\<close> / \<^verbatim>\<open>self.right\<close> read before being assigned\<close>

text \<open>
  \<^verbatim>\<open>PointSet\<close>: the attribute \<^verbatim>\<open>split\<close> is set to \<^verbatim>\<open>None\<close> by the constructor and never
  read or written again, so it carries no field here.
\<close>

record PointSet =
  types :: "FeaturesTypes list"
  features :: "rat list list"
  labels :: "bool list"
  threshold :: "rat option"
  selected_feature_id :: "nat option"
  category_id :: "rat option"

text \<open>
  \<^verbatim>\<open>PointSet.__init__\<close>. Entries \<^verbatim>\<open>None\<close> of \<^verbatim>\<open>types\<close> are dropped. \<^verbatim>\<open>np.array(features)\<close>
  needs rows of one length.
\<close>

definition PointSet_init ::
  "rat list list \<Rightarrow> bool list \<Rightarrow> FeaturesTypes option list \<Rightarrow> error + PointSet" where
  "PointSet_init fs ls ts =
     (if list_all (\<lambda>p. length p = length (hd fs)) fs
      then Inr \<lparr>types = map the (filter (\<lambda>t. t \<noteq> None) ts),
                features = fs,
                labels = ls,
                threshold = None,
                selected_feature_id = None,
                category_id = None\<rparr>
      else Inl ValueError)"

section \<open>Gini impurity\<close>

definition count_true :: "bool list \<Rightarrow> int" where
  "count_true ls = int (length (filter (\<lambda>l. l) ls))"

text \<open>The expression returned by \<^verbatim>\<open>get_gini\<close>; \<open>tot\<close> is the source's \<^verbatim>\<open>total\<close> (a name HOL
  already uses).\<close>

definition gini_score :: "int \<Rightarrow> int \<Rightarrow> rat" where
  "gini_score count_label_true tot =
     1 - (of_int count_label_true / of_int tot)\<^sup>2
       - (of_int (tot - count_label_true) / of_int tot)\<^sup>2"


section \<open>Split search\<close>

text \<open>
  The local variables of \<^verbatim>\<open>get_best_gain\<close> that live across candidates: \<^verbatim>\<open>res\<close>,
  \<^verbatim>\<open>threshold_found\<close>, \<^verbatim>\<open>category_id_found\<close>. The four counts \<^verbatim>\<open>c00, c01, c10, c11\<close> are
  a tuple.
\<close>

record search =
  res :: "nat option \<times> rat option"
  threshold_found :: "rat option"
  category_id_found :: "rat option"

type_synonym counts = "int \<times> int \<times> int \<times> int"

definition init_search :: search where
  "init_search = \<lparr>res = (None, None), threshold_found = None, category_id_found = None\<rparr>"

text \<open>Lines 144-148: the gain of a candidate whose two sides are not empty.\<close>

definition split_gain :: "PointSet \<Rightarrow> counts \<Rightarrow> rat" where
  "split_gain ps c =
     (case c of (c00, c01, c10, c11) \<Rightarrow>
        let tot = int (length (labels ps));
            gini0 = 1 - (of_int c00 / of_int (c00 + c01))\<^sup>2 - (of_int c01 / of_int (c00 + c01))\<^sup>2;
            gini1 = 1 - (of_int c10 / of_int (c10 + c11))\<^sup>2 - (of_int c11 / of_int (c10 + c11))\<^sup>2;
            gini_split = of_int (c00 + c01) / of_int tot * gini0
                       + of_int (c10 + c11) / of_int tot * gini1
        in gini_score (count_true (labels ps)) tot - gini_split)"

text \<open>Line 154: the floor on both sides; \<^verbatim>\<open>None\<close> disables it.\<close>

definition floor_violated :: "int option \<Rightarrow> int \<Rightarrow> int \<Rightarrow> bool" where
  "floor_violated min_split_points right_count left_count =
     (case min_split_points of
        None \<Rightarrow> False
      | Some m \<Rightarrow> right_count < m \<or> left_count < m)"

text \<open>Line 157: the threshold recorded for a cut at sorted position \<open>k\<close>.\<close>

definition cut_threshold :: "rat list \<Rightarrow> nat \<Rightarrow> rat" where
  "cut_threshold values k =
     (if k = 0 then values ! k else (values ! (k - 1) + values ! k) / 2)"

text \<open>
  Lines 141-160: what the loop body does with one candidate, once its counts are known.
  \<open>values ! k\<close> is the source's \<^verbatim>\<open>val\<close>. The call of \<^verbatim>\<open>get_gini\<close> cannot raise here: the
  loops below are entered only with at least as many labels as points, and at least one
  point.
\<close>

definition evaluate ::
  "PointSet \<Rightarrow> int option \<Rightarrow> nat \<Rightarrow> FeaturesTypes \<Rightarrow> rat list \<Rightarrow> nat \<Rightarrow> counts
     \<Rightarrow> search \<Rightarrow> search" where
  "evaluate ps min_split_points i f_type values k c st =
     (case c of (c00, c01, c10, c11) \<Rightarrow>
        if c00 + c01 = 0 \<or> c10 + c11 = 0 then st
        else
          let gini_gain = split_gain ps c in
          if (case snd (res st) of None \<Rightarrow> True | Some g \<Rightarrow> gini_gain > g)
          then
            if floor_violated min_split_points (c00 + c01) (c10 + c11) then st
            else st\<lparr>res := (Some i, Some gini_gain),
                    threshold_found :=
                      (if f_type = REAL then Some (cut_threshold values k)
                       else threshold_found st),
                    category_id_found :=
                      (if f_type = CLASSES then Some (values ! k)
                       else category_id_found st)\<rparr>
          else st)"

text \<open>
  \<^verbatim>\<open>np.argsort\<close>: the indices in ascending order of value. numpy leaves the order of equal
  values open; the model takes the stable one. The candidates of the search lie only
  where the sorted value changes, where the counts do not depend on that order.
\<close>

definition argsort :: "rat list \<Rightarrow> nat list" where
  "argsort f_values = sort_key (\<lambda>j. f_values ! j) [0..<length f_values]"

text \<open>Lines 122-127: the point at sorted position \<open>k - 1\<close> moves below the cut.\<close>

definition move_point :: "bool list \<Rightarrow> nat \<Rightarrow> counts \<Rightarrow> counts" where
  "move_point sorted_labels k c =
     (case c of (c00, c01, c10, c11) \<Rightarrow>
        if k > 0 \<and> sorted_labels ! (k - 1) then (c00, c01 + 1, c10, c11 - 1)
        else if k > 0 \<and> \<not> sorted_labels ! (k - 1) then (c00 + 1, c01, c10 - 1, c11)
        else c)"

text \<open>Lines 121-130 and 141-160: one turn of the loop over a continuous column.\<close>

definition real_step ::
  "PointSet \<Rightarrow> int option \<Rightarrow> nat \<Rightarrow> rat list \<Rightarrow> bool list \<Rightarrow> nat
     \<Rightarrow> counts \<times> search \<Rightarrow> counts \<times> search" where
  "real_step ps min_split_points i values sorted_labels k cst =
     (let c = move_point sorted_labels k (fst cst) in
      if k = 0 \<or> (k > 0 \<and> values ! k = values ! (k - 1)) then (c, snd cst)
      else (c, evaluate ps min_split_points i REAL values k c (snd cst)))"

text \<open>Lines 102-106: the sorted column of a continuous feature.\<close>

definition sorted_values :: "rat list \<Rightarrow> rat list" where
  "sorted_values f_values = map (\<lambda>j. f_values ! j) (argsort f_values)"

definition sorted_labels_of :: "PointSet \<Rightarrow> rat list \<Rightarrow> bool list" where
  "sorted_labels_of ps f_values = map (\<lambda>j. labels ps ! j) (argsort f_values)"

definition start_counts :: "PointSet \<Rightarrow> counts" where
  "start_counts ps =
     (let s = count_true (labels ps); tot = int (length (labels ps))
      in (0, 0, tot - s, s))"

definition real_search ::
  "PointSet \<Rightarrow> int option \<Rightarrow> nat \<Rightarrow> rat list \<Rightarrow> search \<Rightarrow> search" where
  "real_search ps min_split_points i f_values st =
     (let values = sorted_values f_values;
          sorted_labels = sorted_labels_of ps f_values
      in snd (fold (real_step ps min_split_points i values sorted_labels)
                [0..<length values] (start_counts ps, st)))"

text \<open>Lines 132-139: the counting pass of a categorical or boolean candidate.\<close>

definition count_point :: "rat list \<Rightarrow> bool list \<Rightarrow> rat \<Rightarrow> nat \<Rightarrow> counts \<Rightarrow> counts" where
  "count_point f_values ls val j c =
     (case c of (c00, c01, c10, c11) \<Rightarrow>
        if \<not> ls ! j \<and> f_values ! j = val then (c00 + 1, c01, c10, c11)
        else if ls ! j \<and> f_values ! j = val then (c00, c01 + 1, c10, c11)
        else if \<not> ls ! j \<and> f_values ! j \<noteq> val then (c00, c01, c10 + 1, c11)
        else (c00, c01, c10, c11 + 1))"

definition count_pass :: "rat list \<Rightarrow> bool list \<Rightarrow> rat \<Rightarrow> counts" where
  "count_pass f_values ls val =
     fold (count_point f_values ls val) [0..<length f_values] (0, 0, 0, 0)"

definition class_step ::
  "PointSet \<Rightarrow> int option \<Rightarrow> nat \<Rightarrow> FeaturesTypes \<Rightarrow> rat list \<Rightarrow> rat list \<Rightarrow> nat
     \<Rightarrow> search \<Rightarrow> search" where
  "class_step ps min_split_points i f_type f_values values k st =
     evaluate ps min_split_points i f_type values k
       (count_pass f_values (labels ps) (values ! k)) st"

definition class_search ::
  "PointSet \<Rightarrow> int option \<Rightarrow> nat \<Rightarrow> FeaturesTypes \<Rightarrow> rat list \<Rightarrow> rat list
     \<Rightarrow> search \<Rightarrow> search" where
  "class_search ps min_split_points i f_type f_values values st =
     fold (class_step ps min_split_points i f_type f_values values) [0..<length values] st"

text \<open>\<^verbatim>\<open>np.unique\<close>: the distinct values, ascending.\<close>

definition unique :: "rat list \<Rightarrow> rat list" where
  "unique f_values = sort (remdups f_values)"

text \<open>
  Lines 98-160: one turn of the loop over the columns. \<^verbatim>\<open>self.types[i]\<close> raises when the
  type vector is shorter than the rows; \<^verbatim>\<open>labels[sorted_indices]\<close> and \<^verbatim>\<open>self.labels[j]\<close>
  raise when there are fewer labels than points (the column has at least one point and so
  at least one candidate). A row too short for column \<open>i\<close> cannot exist in a numpy
  matrix; the record allows it, and the model refuses it. \<open>column ps i\<close> is
  \<^verbatim>\<open>self.features[:,i]\<close>.
\<close>

definition column :: "PointSet \<Rightarrow> nat \<Rightarrow> rat list" where
  "column ps i = map (\<lambda>p. p ! i) (features ps)"

definition feature_step :: "PointSet \<Rightarrow> int option \<Rightarrow> nat \<Rightarrow> search \<Rightarrow> error + search" where
  "feature_step ps min_split_points i st =
     (if \<not> list_all (\<lambda>p. i < length p) (features ps) then Inl IndexError
      else if length (types ps) \<le> i then Inl IndexError
      else if length (labels ps) < length (features ps) then Inl IndexError
      else
        let f_values = column ps i;
            f_type = types ps ! i
        in Inr (case f_type of
                  REAL \<Rightarrow> real_search ps min_split_points i f_values st
                | CLASSES \<Rightarrow>
                    class_search ps min_split_points i CLASSES f_values (unique f_values) st
                | BOOLEAN \<Rightarrow>
                    class_search ps min_split_points i BOOLEAN f_values [0] st))"

fun feature_loop :: "PointSet \<Rightarrow> int option \<Rightarrow> nat list \<Rightarrow> search \<Rightarrow> error + search" where
  "feature_loop ps min_split_points [] st = Inr st"
| "feature_loop ps min_split_points (i # ids) st =
     (case feature_step ps min_split_points i st of
        Inl e \<Rightarrow> Inl e
      | Inr st' \<Rightarrow> feature_loop ps min_split_points ids st')"

text \<open>
  \<^verbatim>\<open>get_best_gain\<close> returns the pair \<^verbatim>\<open>res\<close> and updates the point set's cache; the model
  returns both.
\<close>

definition get_best_gain ::
  "PointSet \<Rightarrow> int option \<Rightarrow> error + ((nat option \<times> rat option) \<times> PointSet)" where
  "get_best_gain ps min_split_points =
     (if length (features ps) = 0 then Inr ((None, None), ps)
      else
        case feature_loop ps min_split_points [0..<length (hd (features ps))] init_search of
          Inl e \<Rightarrow> Inl e
        | Inr st \<Rightarrow>
            (case fst (res st) of
               None \<Rightarrow> Inr (res st, ps)
             | Some i \<Rightarrow>
                 Inr (res st,
                      ps\<lparr>threshold :=
                           (if types ps ! i = REAL then threshold_found st else threshold ps),
                         category_id :=
                           (if types ps ! i = CLASSES then category_id_found st
                            else category_id ps),
                         selected_feature_id := Some i\<rparr>)))"

definition get_best_threshold :: "PointSet \<Rightarrow> error + rat option" where
  "get_best_threshold ps =
     (case selected_feature_id ps of
        None \<Rightarrow> Inl InvalidState
      | Some i \<Rightarrow>
          if length (types ps) \<le> i then Inl IndexError
          else (case types ps ! i of
                  REAL \<Rightarrow> Inr (threshold ps)
                | BOOLEAN \<Rightarrow> Inr None
                | CLASSES \<Rightarrow> Inr (category_id ps)))"

section \<open>Tree\<close>

text \<open>
  A \<^verbatim>\<open>Tree\<close> object: its scalar attributes are a record, its two children are optional
  (the attributes \<^verbatim>\<open>left\<close> and \<^verbatim>\<open>right\<close> do not exist until \<^verbatim>\<open>build_tree\<close> assigns them).
  \<^verbatim>\<open>feature_split\<close> is the pair \<^verbatim>\<open>([threshold], list(set(...)))\<close>; Python fixes no order for
  the second list, which is a set here.
\<close>

record TreeAttrs =
  h :: int
  feature_id :: "nat option"
  feature_threshold :: "rat option"
  feature_split :: "(rat list \<times> rat set) option"
  points :: PointSet
  min_split_points :: int
  counter :: nat
  beta :: rat

datatype Tree = Tree (attrs: TreeAttrs) (left: "Tree option") (right: "Tree option")

text \<open>Lines 83-85: the split of a feature that is not continuous.\<close>

definition make_split :: "rat option \<Rightarrow> rat list \<Rightarrow> rat list \<times> rat set" where
  "make_split thr f_values =
     (case thr of
        Some t \<Rightarrow> ([t], set (filter (\<lambda>f. f \<noteq> t) f_values))
      | None \<Rightarrow> ([0], {1}))"

text \<open>Line 96: the test that sends a training point to the left child.\<close>

definition goes_left :: "bool \<Rightarrow> nat \<Rightarrow> rat option \<Rightarrow> rat list \<times> rat set \<Rightarrow> rat list \<Rightarrow> bool" where
  "goes_left is_continous fid thr split p =
     ((is_continous \<and> p ! fid < the thr) \<or> (\<not> is_continous \<and> p ! fid \<in> set (fst split)))"

text \<open>
  \<^verbatim>\<open>Tree.build_tree\<close> and \<^verbatim>\<open>Tree.__init__\<close> call each other. A winning continuous feature
  always comes with a threshold; were it \<^verbatim>\<open>None\<close>, the comparison of line 96 would raise.
  The rows read at \<open>fid\<close> are long enough and the labels are as many as the points, since
  \<open>get_best_gain\<close> has checked both for the winning column.
\<close>

function build_tree :: "Tree \<Rightarrow> error + Tree"
  and Tree_init ::
    "rat list list \<Rightarrow> bool list \<Rightarrow> FeaturesTypes option list \<Rightarrow> int \<Rightarrow> int \<Rightarrow> rat
       \<Rightarrow> error + Tree" where
  "build_tree (Tree a l r) =
     (let a0 = a\<lparr>counter := 0\<rparr> in
      if h a0 > 0 then
        (case get_best_gain (points a0) (Some (min_split_points a0)) of
           Inl e \<Rightarrow> Inl e
         | Inr (rs, ps) \<Rightarrow>
             (case fst rs of
                None \<Rightarrow> Inr (Tree (a0\<lparr>points := ps, h := 0\<rparr>) l r)
              | Some fid \<Rightarrow>
                  (case get_best_threshold ps of
                     Inl e \<Rightarrow> Inl e
                   | Inr thr \<Rightarrow>
                       let is_continous = (types ps ! fid = REAL);
                           split = make_split thr (column ps fid);
                           a1 = (if \<not> is_continous
                                 then a0\<lparr>points := ps, feature_split := Some split\<rparr>
                                 else a0\<lparr>points := ps, feature_threshold := thr\<rparr>);
                           a2 = a1\<lparr>feature_id := Some fid\<rparr>;
                           lefts = filter (\<lambda>pl. goes_left is_continous fid thr split (fst pl))
                                     (zip (features ps) (labels ps));
                           rights = filter (\<lambda>pl. \<not> goes_left is_continous fid thr split (fst pl))
                                     (zip (features ps) (labels ps))
                       in
                         if is_continous \<and> thr = None then Inl TypeError
                         else if int (length lefts) < min_split_points a2
                                 \<or> int (length rights) < min_split_points a2
                         then Inr (Tree (a2\<lparr>h := 0\<rparr>) l r)
                         else
                           (case Tree_init (map fst lefts) (map snd lefts)
                                   (map Some (types ps)) (h a2 - 1) (min_split_points a2) (beta a2) of
                              Inl e \<Rightarrow> Inl e
                            | Inr lt \<Rightarrow>
                                (case Tree_init (map fst rights) (map snd rights)
                                        (map Some (types ps)) (h a2 - 1) (min_split_points a2)
                                        (beta a2) of
                                   Inl e \<Rightarrow> Inl e
                                 | Inr rt \<Rightarrow> Inr (Tree a2 (Some lt) (Some rt)))))))
      else Inr (Tree a0 l r))"
| "Tree_init fs ls ts ht msp b =
     (case PointSet_init fs ls ts of
        Inl e \<Rightarrow> Inl e
      | Inr ps \<Rightarrow>
          let t = Tree \<lparr>h = ht, feature_id = None, feature_threshold = None,
                         feature_split = None, points = ps, min_split_points = msp,
                         counter = 0, beta = b\<rparr> None None
          in if ht > 0 then build_tree t else Inr t)"
  by pat_completeness auto
termination
  by (relation "measure (\<lambda>x. case x of
                   Inl t \<Rightarrow> 2 * nat (h (attrs t))
                 | Inr (fs, ls, ts, ht, msp, b) \<Rightarrow> 2 * nat ht + 1)")
     auto

section \<open>Decision\<close>

text \<open>Lines 140-142: the prediction of a leaf.\<close>

definition leaf_decision :: "PointSet \<Rightarrow> bool" where
  "leaf_decision ps =
     (let true_count = count_true (labels ps);
          false_count = int (length (labels ps)) - true_count
      in true_count \<ge> false_count)"

text \<open>
  Lines 145-154 (and again 176-185, 207-216): whether a point is routed to the left child
  by the node's stored split. The node's \<^verbatim>\<open>feature_id\<close> or \<^verbatim>\<open>feature_threshold\<close> may still be
  \<^verbatim>\<open>None\<close>, and the point may be too short.
\<close>

definition route_left :: "TreeAttrs \<Rightarrow> rat list \<Rightarrow> error + bool" where
  "route_left a q =
     (case feature_id a of
        None \<Rightarrow> Inl TypeError
      | Some fid \<Rightarrow>
          if length q \<le> fid then Inl IndexError
          else (case feature_split a of
                  None \<Rightarrow>
                    (case feature_threshold a of
                       None \<Rightarrow> Inl TypeError
                     | Some t \<Rightarrow> Inr (q ! fid < t))
                | Some sp \<Rightarrow> Inr (q ! fid \<in> set (fst sp))))"

fun decide :: "Tree \<Rightarrow> rat list \<Rightarrow> error + bool" where
  "decide (Tree a l r) q =
     (if h a = 0 then Inr (leaf_decision (points a))
      else
        (case route_left a q of
           Inl e \<Rightarrow> Inl e
         | Inr go_left \<Rightarrow>
             if go_left then
               (case l of
                  None \<Rightarrow> Inl AttributeError
                | Some child \<Rightarrow> decide child q)
             else
               (case r of
                  None \<Rightarrow> Inl AttributeError
                | Some child \<Rightarrow> decide child q)))"

section \<open>Incremental updates\<close>

text \<open>\<^verbatim>\<open>all(f == point[j] for j, f in enumerate(features))\<close>, which stops at the first
  difference and raises when the stored point is too short.\<close>

fun point_matches :: "rat list \<Rightarrow> rat list \<Rightarrow> error + bool" where
  "point_matches [] point = Inr True"
| "point_matches (f # fs) [] = Inl IndexError"
| "point_matches (f # fs) (x # point) = (if f = x then point_matches fs point else Inr False)"

text \<open>Lines 164-168: the indices of all stored points equal to the new one. The list is
  not used afterwards; the loop can still raise.\<close>

fun matching_indices :: "rat list \<Rightarrow> rat list list \<Rightarrow> nat \<Rightarrow> error + nat list" where
  "matching_indices q [] i = Inr []"
| "matching_indices q (point # rest) i =
     (case point_matches q point of
        Inl e \<Rightarrow> Inl e
      | Inr m \<Rightarrow>
          (case matching_indices q rest (Suc i) of
             Inl e \<Rightarrow> Inl e
           | Inr idx \<Rightarrow> Inr (if m then i # idx else idx)))"

text \<open>Lines 189-194: the index of the first stored point equal to the given one (the
  loop breaks there), or no index.\<close>

fun first_match :: "rat list \<Rightarrow> rat list list \<Rightarrow> nat \<Rightarrow> error + nat list" where
  "first_match q [] i = Inr []"
| "first_match q (point # rest) i =
     (case point_matches q point of
        Inl e \<Rightarrow> Inl e
      | Inr m \<Rightarrow> if m then Inr [i] else first_match q rest (Suc i))"

text \<open>\<^verbatim>\<open>[x for i, x in enumerate(xs) if i not in indices_to_remove]\<close>\<close>

definition remove_indices :: "nat list \<Rightarrow> 'a list \<Rightarrow> 'a list" where
  "remove_indices idx xs = map snd (filter (\<lambda>ix. fst ix \<notin> set idx) (enumerate 0 xs))"

text \<open>Lines 162 and 199: the amortized-rebuild condition.\<close>

definition rebuild_due :: "TreeAttrs \<Rightarrow> bool" where
  "rebuild_due a = (of_nat (counter a) \<ge> beta a * of_nat (length (features (points a))))"

text \<open>Lines 157-160: the update of the node itself by an insertion.\<close>

definition add_local :: "TreeAttrs \<Rightarrow> rat list \<Rightarrow> bool \<Rightarrow> error + TreeAttrs" where
  "add_local a q lab =
     (let a1 = a\<lparr>counter := counter a + 1\<rparr> in
      if h a1 > 0 then
        (case PointSet_init (features (points a1) @ [q]) (labels (points a1) @ [lab])
                (map Some (types (points a1))) of
           Inl e \<Rightarrow> Inl e
         | Inr ps \<Rightarrow> Inr (a1\<lparr>points := ps\<rparr>))
      else Inr a1)"

text \<open>Lines 188-197: the update of the node itself by a deletion.\<close>

definition del_local :: "TreeAttrs \<Rightarrow> rat list \<Rightarrow> error + TreeAttrs" where
  "del_local a q =
     (let a1 = a\<lparr>counter := counter a + 1\<rparr> in
      case first_match q (features (points a1)) 0 of
        Inl e \<Rightarrow> Inl e
      | Inr indices_to_remove \<Rightarrow>
          if h a1 > 0 then
            (case PointSet_init (remove_indices indices_to_remove (features (points a1)))
                    (remove_indices indices_to_remove (labels (points a1)))
                    (map Some (types (points a1))) of
               Inl e \<Rightarrow> Inl e
             | Inr ps \<Rightarrow> Inr (a1\<lparr>points := ps\<rparr>))
          else Inr a1)"

fun add_training_point :: "Tree \<Rightarrow> rat list \<Rightarrow> bool \<Rightarrow> error + Tree" where
  "add_training_point (Tree a l r) q lab =
     (case add_local a q lab of
        Inl e \<Rightarrow> Inl e
      | Inr a2 \<Rightarrow>
          if rebuild_due a2 then
            (case matching_indices q (features (points a2)) 0 of
               Inl e \<Rightarrow> Inl e
             | Inr indices_to_remove \<Rightarrow> build_tree (Tree (a2\<lparr>counter := 0\<rparr>) l r))
          else if h a2 = 0 then Inr (Tree a2 l r)
          else
            (case route_left a2 q of
               Inl e \<Rightarrow> Inl e
             | Inr go_left \<Rightarrow>
                 if go_left then
                   (case l of
                      None \<Rightarrow> Inl AttributeError
                    | Some child \<Rightarrow>
                        (case add_training_point child q lab of
                           Inl e \<Rightarrow> Inl e
                         | Inr child' \<Rightarrow> Inr (Tree a2 (Some child') r)))
                 else
                   (case r of
                      None \<Rightarrow> Inl AttributeError
                    | Some child \<Rightarrow>
                        (case add_training_point child q lab of
                           Inl e \<Rightarrow> Inl e
                         | Inr child' \<Rightarrow> Inr (Tree a2 l (Some child'))))))"

fun del_training_point :: "Tree \<Rightarrow> rat list \<Rightarrow> bool \<Rightarrow> error + Tree" where
  "del_training_point (Tree a l r) q lab =
     (case del_local a q of
        Inl e \<Rightarrow> Inl e
      | Inr a2 \<Rightarrow>
          if rebuild_due a2 then build_tree (Tree (a2\<lparr>counter := 0\<rparr>) l r)
          else if h a2 = 0 then Inr (Tree a2 l r)
          else
            (case route_left a2 q of
               Inl e \<Rightarrow> Inl e
             | Inr go_left \<Rightarrow>
                 if go_left then
                   (case l of
                      None \<Rightarrow> Inl AttributeError
                    | Some child \<Rightarrow>
                        (case del_training_point child q lab of
                           Inl e \<Rightarrow> Inl e
                         | Inr child' \<Rightarrow> Inr (Tree a2 (Some child') r)))
                 else
                   (case r of
                      None \<Rightarrow> Inl AttributeError
                    | Some child \<Rightarrow>
                        (case del_training_point child q lab of
                           Inl e \<Rightarrow> Inl e
                         | Inr child' \<Rightarrow> Inr (Tree a2 l (Some child'))))))"

section \<open>Observations on a tree\<close>



text \<open>The reachable leaves themselves, with the operation counter masked: their height,
  point set, split attributes and children.\<close>

fun leaf_nodes :: "Tree \<Rightarrow> Tree list" where
  "leaf_nodes (Tree a l r) =
     (if h a = 0 then [Tree (a\<lparr>counter := 0\<rparr>) l r]
      else (case l of None \<Rightarrow> [] | Some child \<Rightarrow> leaf_nodes child)
         @ (case r of None \<Rightarrow> [] | Some child \<Rightarrow> leaf_nodes child))"

text \<open>
  Whether \<open>add_training_point\<close> meets the amortized-rebuild condition at some node on its
  way down (and so calls \<open>build_tree\<close> there). It follows the path of
  \<open>add_training_point\<close>; where that raises, no rebuild has happened.
\<close>

fun add_rebuilds :: "Tree \<Rightarrow> rat list \<Rightarrow> bool \<Rightarrow> bool" where
  "add_rebuilds (Tree a l r) q lab =
     (case add_local a q lab of
        Inl e \<Rightarrow> False
      | Inr a2 \<Rightarrow>
          if rebuild_due a2 then True
          else if h a2 = 0 then False
          else
            (case route_left a2 q of
               Inl e \<Rightarrow> False
             | Inr go_left \<Rightarrow>
                 if go_left then
                   (case l of None \<Rightarrow> False | Some child \<Rightarrow> add_rebuilds child q lab)
                 else
                   (case r of None \<Rightarrow> False | Some child \<Rightarrow> add_rebuilds child q lab)))"

text \<open>The same for \<open>del_training_point\<close>.\<close>

fun del_rebuilds :: "Tree \<Rightarrow> rat list \<Rightarrow> bool \<Rightarrow> bool" where
  "del_rebuilds (Tree a l r) q lab =
     (case del_local a q of
        Inl e \<Rightarrow> False
      | Inr a2 \<Rightarrow>
          if rebuild_due a2 then True
          else if h a2 = 0 then False
          else
            (case route_left a2 q of
               Inl e \<Rightarrow> False
             | Inr go_left \<Rightarrow>
                 if go_left then
                   (case l of None \<Rightarrow> False | Some child \<Rightarrow> del_rebuilds child q lab)
                 else
                   (case r of None \<Rightarrow> False | Some child \<Rightarrow> del_rebuilds child q lab)))"

text \<open>The two calls in a row, \<^verbatim>\<open>get_best_gain\<close> then \<^verbatim>\<open>get_best_threshold\<close>, as \<^verbatim>\<open>build_tree\<close>
  makes them.\<close>

definition search_then_threshold :: "PointSet \<Rightarrow> int option \<Rightarrow> error + rat option" where
  "search_then_threshold ps msp =
     (case get_best_gain ps msp of
        Inl e \<Rightarrow> Inl e
      | Inr (rs, ps') \<Rightarrow> get_best_threshold ps')"

section \<open>The scenario of the specification\<close>

text \<open>
  Four points with one continuous and one categorical feature; \<open>true_cat\<close> and
  \<open>false_cat\<close> are the two category codes, any two numbers.
\<close>

definition scenario_points :: "rat \<Rightarrow> rat \<Rightarrow> rat list list" where
  "scenario_points true_cat false_cat =
     [[1 / 10, true_cat], [2 / 10, true_cat], [9 / 10, false_cat], [8 / 10, false_cat]]"

definition scenario_labels :: "bool list" where
  "scenario_labels = [True, True, False, False]"

definition scenario_types :: "FeaturesTypes option list" where
  "scenario_types = [Some REAL, Some CLASSES]"

text \<open>Point sets and nodes over these two feature types, written out for the concrete
  trees of the witnesses below: a point set with its cache, a node of height 0 as
  \<^verbatim>\<open>Tree.__init__\<close> makes it, and a node of height 1 that splits on feature 0 at 1/2.\<close>

definition point_set :: "rat list list \<Rightarrow> bool list \<Rightarrow> rat option \<Rightarrow> nat option \<Rightarrow> PointSet" where
  "point_set fs ls thr sel =
     \<lparr>types = [REAL, CLASSES], features = fs, labels = ls, threshold = thr,
      selected_feature_id = sel, category_id = None\<rparr>"

definition fresh_leaf :: "rat list list \<Rightarrow> bool list \<Rightarrow> nat \<Rightarrow> rat \<Rightarrow> Tree" where
  "fresh_leaf fs ls c b =
     Tree \<lparr>h = 0, feature_id = None, feature_threshold = None, feature_split = None,
           points = point_set fs ls None None,
           min_split_points = 1, counter = c, beta = b\<rparr> None None"

definition split_node :: "PointSet \<Rightarrow> nat \<Rightarrow> rat \<Rightarrow> Tree \<Rightarrow> Tree \<Rightarrow> Tree" where
  "split_node ps c b lt rt =
     Tree \<lparr>h = 1, feature_id = Some 0, feature_threshold = Some (1 / 2), feature_split = None,
           points = ps, min_split_points = 1, counter = c, beta = b\<rparr> (Some lt) (Some rt)"

text \<open>The tree of the scenario, with the operation counter of the root and the factor
  \<^verbatim>\<open>beta\<close> left open.\<close>

definition scenario_tree :: "rat \<Rightarrow> rat \<Rightarrow> nat \<Rightarrow> rat \<Rightarrow> Tree" where
  "scenario_tree true_cat false_cat c b =
     split_node (point_set (scenario_points true_cat false_cat) scenario_labels
                   (Some (1 / 2)) (Some 0)) c b
       (fresh_leaf [[1 / 10, true_cat], [2 / 10, true_cat]] [True, True] 0 b)
       (fresh_leaf [[9 / 10, false_cat], [8 / 10, false_cat]] [False, False] 0 b)"

section \<open>The candidates of the split search\<close>

text \<open>
  The candidates that the loop over a continuous column hands to \<open>evaluate\<close>, with their
  sorted position and their counts: the same running counts as \<open>real_step\<close>, without the
  search state.
\<close>

fun real_cands :: "rat list \<Rightarrow> bool list \<Rightarrow> nat list \<Rightarrow> counts \<Rightarrow> (nat \<times> counts) list" where
  "real_cands values sorted_labels [] c = []"
| "real_cands values sorted_labels (k # ks) c =
     (let c' = move_point sorted_labels k c in
      (if k = 0 \<or> (k > 0 \<and> values ! k = values ! (k - 1)) then [] else [(k, c')])
      @ real_cands values sorted_labels ks c')"

text \<open>The candidates of column \<open>i\<close>, by the column's type, in the order of the loop.\<close>

definition split_candidates :: "PointSet \<Rightarrow> nat \<Rightarrow> (nat \<times> counts) list" where
  "split_candidates ps i =
     (let f_values = column ps i in
      case types ps ! i of
        REAL \<Rightarrow>
          real_cands (sorted_values f_values) (sorted_labels_of ps f_values)
            [0..<length (sorted_values f_values)] (start_counts ps)
      | CLASSES \<Rightarrow>
          map (\<lambda>k. (k, count_pass f_values (labels ps) (unique f_values ! k)))
            [0..<length (unique f_values)]
      | BOOLEAN \<Rightarrow> [(0, count_pass f_values (labels ps) 0)])"

text \<open>A candidate with an empty side (line 141) or a side below the floor (line 154).\<close>

definition unusable :: "int option \<Rightarrow> counts \<Rightarrow> bool" where
  "unusable msp c =
     (case c of (c00, c01, c10, c11) \<Rightarrow>
        c00 + c01 = 0 \<or> c10 + c11 = 0 \<or> floor_violated msp (c00 + c01) (c10 + c11))"

definition no_usable_split :: "PointSet \<Rightarrow> int option \<Rightarrow> bool" where
  "no_usable_split ps msp =
     list_all (\<lambda>i. list_all (\<lambda>kc. unusable msp (snd kc)) (split_candidates ps i))
       [0..<length (hd (features ps))]"

text \<open>What the search needs in order not to raise: rows of one length, a type for every
  column, a label for every point.\<close>

definition well_shaped :: "PointSet \<Rightarrow> bool" where
  "well_shaped ps =
     (list_all (\<lambda>p. length p = length (hd (features ps))) (features ps)
      \<and> length (hd (features ps)) \<le> length (types ps)
      \<and> length (features ps) \<le> length (labels ps))"

text \<open>
  The invariant of the search: a recorded winner is a column with a type, and when that
  column is continuous the recorded threshold is the one of line 157 for a sorted position
  \<open>k > 0\<close> at which the sorted value differs from its predecessor.
\<close>

definition value_change :: "rat list \<Rightarrow> nat \<Rightarrow> bool" where
  "value_change values k = (0 < k \<and> k < length values \<and> values ! k \<noteq> values ! (k - 1))"

definition search_ok :: "PointSet \<Rightarrow> search \<Rightarrow> bool" where
  "search_ok ps st =
     (case fst (res st) of
        None \<Rightarrow> True
      | Some i \<Rightarrow>
          i < length (types ps)
          \<and> (types ps ! i = REAL \<longrightarrow>
               (\<exists>k. value_change (sorted_values (column ps i)) k
                  \<and> threshold_found st = Some (cut_threshold (sorted_values (column ps i)) k))))"

section \<open>Properties of the Gini impurity\<close>










section \<open>Evaluating the split search\<close>

lemmas search_defs =
  get_best_gain_def feature_step_def column_def init_search_def real_search_def sorted_values_def
  sorted_labels_of_def argsort_def start_counts_def count_true_def Let_def real_step_def
  move_point_def evaluate_def split_gain_def gini_score_def floor_violated_def
  cut_threshold_def class_search_def class_step_def count_pass_def count_point_def
  unique_def

lemma scenario_search:
  "get_best_gain
     \<lparr>types = [REAL, CLASSES],
      features = [[1 / 10, tc], [1 / 5, tc], [9 / 10, fc], [4 / 5, fc]],
      labels = [True, True, False, False],
      threshold = None, selected_feature_id = None, category_id = None\<rparr> (Some 1)
   = Inr ((Some 0, Some (1 / 2)),
          \<lparr>types = [REAL, CLASSES],
           features = [[1 / 10, tc], [1 / 5, tc], [9 / 10, fc], [4 / 5, fc]],
           labels = [True, True, False, False],
           threshold = Some (1 / 2), selected_feature_id = Some 0, category_id = None\<rparr>)"
proof -
  consider "tc < fc" | "tc = fc" | "fc < tc" by linarith
  then show ?thesis
  proof cases
    case 1
    then show ?thesis
      by (simp add: search_defs upt_rec power2_eq_square)
  next
    case 2
    then show ?thesis
      by (simp add: search_defs upt_rec power2_eq_square)
  next
    case 3
    then show ?thesis
      by (simp add: search_defs upt_rec power2_eq_square)
  qed
qed

lemma scenario_build:
  "Tree_init (scenario_points tc fc) scenario_labels scenario_types 1 1 b
   = Inr (scenario_tree tc fc 0 b)"
  by (simp add: PointSet_init_def scenario_search scenario_points_def scenario_labels_def
      scenario_types_def get_best_threshold_def make_split_def goes_left_def Let_def
      scenario_tree_def fresh_leaf_def split_node_def point_set_def column_def)

lemma fresh_leaf_decide:
  "decide (fresh_leaf fs ls c b) q = Inr (leaf_decision (point_set fs ls None None))"
  by (simp add: fresh_leaf_def)

section \<open>The scenario\<close>

text \<open>
  C1. Building a tree from the points [[0.1, true_cat], [0.2, true_cat], [0.9, false_cat],
  [0.8, false_cat]] with types [Continuous, Categorical], labels [true, true, false,
  false], maximum height 1 and minimum split size 1 (whatever the category codes and the
  factor beta) succeeds; the root has height 1, splits on feature 0 by the threshold 1/2
  (no categorical split is stored), its children are two leaves, the left one predicting
  true and the right one predicting false for every query; the tree decides true for
  [0.3, true_cat] and false for [0.95, false_cat].
\<close>

theorem scenario_root_split_and_decisions:
  "\<exists>a lt rt.
     Tree_init (scenario_points tc fc) scenario_labels scenario_types 1 1 b
       = Inr (Tree a (Some lt) (Some rt))
     \<and> h a = 1 \<and> feature_id a = Some 0 \<and> feature_threshold a = Some (1 / 2)
     \<and> feature_split a = None
     \<and> h (attrs lt) = 0 \<and> h (attrs rt) = 0
     \<and> (\<forall>q. decide lt q = Inr True) \<and> (\<forall>q. decide rt q = Inr False)
     \<and> decide (Tree a (Some lt) (Some rt)) [3 / 10, tc] = Inr True
     \<and> decide (Tree a (Some lt) (Some rt)) [95 / 100, fc] = Inr False"
proof -
  let ?lt = "fresh_leaf [[1 / 10, tc], [2 / 10, tc]] [True, True] 0 b"
  let ?rt = "fresh_leaf [[9 / 10, fc], [8 / 10, fc]] [False, False] 0 b"
  have built: "Tree_init (scenario_points tc fc) scenario_labels scenario_types 1 1 b
                 = Inr (scenario_tree tc fc 0 b)"
    by (rule scenario_build)
  have shape: "scenario_tree tc fc 0 b = Tree (attrs (scenario_tree tc fc 0 b)) (Some ?lt) (Some ?rt)"
    by (simp add: scenario_tree_def split_node_def)
  have root: "h (attrs (scenario_tree tc fc 0 b)) = 1
      \<and> feature_id (attrs (scenario_tree tc fc 0 b)) = Some 0
      \<and> feature_threshold (attrs (scenario_tree tc fc 0 b)) = Some (1 / 2)
      \<and> feature_split (attrs (scenario_tree tc fc 0 b)) = None"
    by (simp add: scenario_tree_def split_node_def)
  have heights: "h (attrs ?lt) = 0 \<and> h (attrs ?rt) = 0"
    by (simp add: fresh_leaf_def)
  have dl: "\<forall>q. decide ?lt q = Inr True"
    by (simp add: fresh_leaf_decide leaf_decision_def count_true_def point_set_def)
  have dr: "\<forall>q. decide ?rt q = Inr False"
    by (simp add: fresh_leaf_decide leaf_decision_def count_true_def point_set_def)
  have d1: "decide (scenario_tree tc fc 0 b) [3 / 10, tc] = Inr True"
    by (simp add: scenario_tree_def split_node_def route_left_def fresh_leaf_decide
        leaf_decision_def count_true_def point_set_def)
  have d2: "decide (scenario_tree tc fc 0 b) [95 / 100, fc] = Inr False"
    by (simp add: scenario_tree_def split_node_def route_left_def fresh_leaf_decide
        leaf_decision_def count_true_def point_set_def)
  from built shape root heights dl dr d1 d2 show ?thesis
    by metis
qed

theorem scenario_root_split_and_decisions_witness:
  "\<exists>a lt rt.
     Tree_init (scenario_points 1 0) scenario_labels scenario_types 1 1 0
       = Inr (Tree a (Some lt) (Some rt))
     \<and> feature_id a = Some 0 \<and> feature_threshold a = Some (1 / 2)
     \<and> decide (Tree a (Some lt) (Some rt)) [3 / 10, 1] = Inr True
     \<and> decide (Tree a (Some lt) (Some rt)) [95 / 100, 0] = Inr False"
  using scenario_root_split_and_decisions [of 1 0 0] by blast

section \<open>Leaves\<close>

text \<open>
  C5. For every node of height 0 and every query point, \<open>decide\<close> returns true exactly
  when the number of true labels among the node's stored points is at least the number of
  false labels (a tie gives true).
\<close>

theorem decide_leaf_majority:
  assumes "h a = 0"
  shows "decide (Tree a l r) q
         = Inr (count_true (labels (points a))
                  \<ge> int (length (labels (points a))) - count_true (labels (points a)))"
  using assms by (simp add: leaf_decision_def Let_def)

theorem decide_leaf_majority_witness:
  "decide (fresh_leaf [[1, 0], [2, 0]] [True, False] 0 0) [7, 7] = Inr True"
proof -
  let ?a = "attrs (fresh_leaf [[1, 0], [2, 0]] [True, False] 0 0)"
  have leaf: "h ?a = 0" by (simp add: fresh_leaf_def)
  have shape: "fresh_leaf [[1, 0], [2, 0]] [True, False] 0 0 = Tree ?a None None"
    by (simp add: fresh_leaf_def)
  have tie: "count_true (labels (points ?a))
               \<ge> int (length (labels (points ?a))) - count_true (labels (points ?a))"
    by (simp add: fresh_leaf_def count_true_def point_set_def)
  from decide_leaf_majority [OF leaf, of None None "[7, 7]"] shape tie show ?thesis
    by simp
qed

section \<open>Incremental updates: what the node itself changes\<close>

lemma add_local_fields:
  assumes "add_local a q lab = Inr a2"
  shows "h a2 = h a \<and> feature_id a2 = feature_id a \<and> feature_threshold a2 = feature_threshold a
       \<and> feature_split a2 = feature_split a \<and> min_split_points a2 = min_split_points a
       \<and> beta a2 = beta a \<and> counter a2 = counter a + 1"
  using assms by (auto simp: add_local_def Let_def split: if_splits sum.splits)

lemma del_local_fields:
  assumes "del_local a q = Inr a2"
  shows "h a2 = h a \<and> feature_id a2 = feature_id a \<and> feature_threshold a2 = feature_threshold a
       \<and> feature_split a2 = feature_split a \<and> min_split_points a2 = min_split_points a
       \<and> beta a2 = beta a \<and> counter a2 = counter a + 1"
  using assms by (auto simp: del_local_def Let_def split: if_splits sum.splits)

lemma add_local_leaf: "h a = 0 \<Longrightarrow> add_local a q lab = Inr (a\<lparr>counter := counter a + 1\<rparr>)"
  by (simp add: add_local_def Let_def)

lemma del_local_leaf:
  "h a = 0 \<Longrightarrow> del_local a q = Inr a2 \<Longrightarrow> a2 = a\<lparr>counter := counter a + 1\<rparr>"
  by (auto simp: del_local_def Let_def split: sum.splits)

lemma build_tree_leaf: "h a = 0 \<Longrightarrow> build_tree (Tree a l r) = Inr (Tree (a\<lparr>counter := 0\<rparr>) l r)"
  by (simp add: Let_def)



section \<open>A rebuild on every operation when beta is 0\<close>

lemma scenario_search_five:
  "get_best_gain
     \<lparr>types = [REAL, CLASSES],
      features = [[1 / 10, 1], [1 / 5, 1], [9 / 10, 0], [4 / 5, 0], [19 / 20, 0]],
      labels = [True, True, False, False, True],
      threshold = None, selected_feature_id = None, category_id = None\<rparr> (Some 1)
   = Inr ((Some 0, Some (16 / 75)),
          \<lparr>types = [REAL, CLASSES],
           features = [[1 / 10, 1], [1 / 5, 1], [9 / 10, 0], [4 / 5, 0], [19 / 20, 0]],
           labels = [True, True, False, False, True],
           threshold = Some (1 / 2), selected_feature_id = Some 0, category_id = None\<rparr>)"
  by (simp add: search_defs upt_rec power2_eq_square)

text \<open>
  C3. At a node whose factor beta is 0, every insertion and every deletion that updates
  the node without raising meets the amortized-rebuild condition; the operation is then
  \<open>build_tree\<close> on the node with its counter reset to 0 (after the insertion's scan of the
  stored points), and nothing is done to the children by the operation itself.
\<close>

theorem beta_zero_rebuilds_at_once:
  assumes "beta a = 0"
  shows "(case add_local a q lab of Inl e \<Rightarrow> True | Inr a2 \<Rightarrow> rebuild_due a2)
       \<and> (case del_local a q of Inl e \<Rightarrow> True | Inr a2 \<Rightarrow> rebuild_due a2)
       \<and> add_training_point (Tree a l r) q lab
           = (case add_local a q lab of
                Inl e \<Rightarrow> Inl e
              | Inr a2 \<Rightarrow>
                  (case matching_indices q (features (points a2)) 0 of
                     Inl e \<Rightarrow> Inl e
                   | Inr idx \<Rightarrow> build_tree (Tree (a2\<lparr>counter := 0\<rparr>) l r)))
       \<and> del_training_point (Tree a l r) q lab
           = (case del_local a q of
                Inl e \<Rightarrow> Inl e
              | Inr a2 \<Rightarrow> build_tree (Tree (a2\<lparr>counter := 0\<rparr>) l r))"
proof -
  have due_add: "rebuild_due a2" if "add_local a q lab = Inr a2" for a2
    using add_local_fields [OF that] assms by (simp add: rebuild_due_def)
  have due_del: "rebuild_due a2" if "del_local a q = Inr a2" for a2
    using del_local_fields [OF that] assms by (simp add: rebuild_due_def)
  have c1: "(case add_local a q lab of Inl e \<Rightarrow> True | Inr a2 \<Rightarrow> rebuild_due a2)"
    using due_add by (simp split: sum.splits)
  have c2: "(case del_local a q of Inl e \<Rightarrow> True | Inr a2 \<Rightarrow> rebuild_due a2)"
    using due_del by (simp split: sum.splits)
  have c3: "add_training_point (Tree a l r) q lab
           = (case add_local a q lab of
                Inl e \<Rightarrow> Inl e
              | Inr a2 \<Rightarrow>
                  (case matching_indices q (features (points a2)) 0 of
                     Inl e \<Rightarrow> Inl e
                   | Inr idx \<Rightarrow> build_tree (Tree (a2\<lparr>counter := 0\<rparr>) l r)))"
    using due_add by (simp del: build_tree.simps split: sum.splits)
  have c4: "del_training_point (Tree a l r) q lab
           = (case del_local a q of
                Inl e \<Rightarrow> Inl e
              | Inr a2 \<Rightarrow> build_tree (Tree (a2\<lparr>counter := 0\<rparr>) l r))"
    using due_del by (simp del: build_tree.simps split: sum.splits)
  from c1 c2 c3 c4 show ?thesis by blast
qed

theorem beta_zero_rebuilds_at_once_witness:
  "beta (attrs (scenario_tree 1 0 0 0)) = 0
   \<and> add_training_point (scenario_tree 1 0 0 0) [95 / 100, 0] True
     = Inr (split_node
              (point_set [[1 / 10, 1], [2 / 10, 1], [9 / 10, 0], [8 / 10, 0], [95 / 100, 0]]
                 [True, True, False, False, True] (Some (1 / 2)) (Some 0)) 0 0
              (fresh_leaf [[1 / 10, 1], [2 / 10, 1]] [True, True] 0 0)
              (fresh_leaf [[9 / 10, 0], [8 / 10, 0], [95 / 100, 0]] [False, False, True] 0 0))"
proof -
  let ?a = "attrs (scenario_tree 1 0 0 0)"
  let ?l = "Some (fresh_leaf [[1 / 10, 1], [2 / 10, 1]] [True, True] 0 0)"
  let ?r = "Some (fresh_leaf [[9 / 10, 0], [8 / 10, 0]] [False, False] 0 0)"
  have b0: "beta ?a = 0"
    by (simp add: scenario_tree_def split_node_def)
  have shape: "scenario_tree 1 0 0 0 = Tree ?a ?l ?r"
    by (simp add: scenario_tree_def split_node_def)
  have loc: "add_local ?a [95 / 100, 0] True
      = Inr (?a\<lparr>counter := 1,
                 points := point_set
                   [[1 / 10, 1], [2 / 10, 1], [9 / 10, 0], [8 / 10, 0], [95 / 100, 0]]
                   [True, True, False, False, True] None None\<rparr>)"
    by (simp add: add_local_def Let_def scenario_tree_def split_node_def point_set_def
        PointSet_init_def scenario_points_def scenario_labels_def)
  from beta_zero_rebuilds_at_once [OF b0, of "[95 / 100, 0]" True ?l ?r]
  have "add_training_point (Tree ?a ?l ?r) [95 / 100, 0] True
          = (case add_local ?a [95 / 100, 0] True of
               Inl e \<Rightarrow> Inl e
             | Inr a2 \<Rightarrow>
                 (case matching_indices [95 / 100, 0] (features (points a2)) 0 of
                    Inl e \<Rightarrow> Inl e
                  | Inr idx \<Rightarrow> build_tree (Tree (a2\<lparr>counter := 0\<rparr>) ?l ?r)))"
    by blast
  also have "\<dots> = Inr (split_node
              (point_set [[1 / 10, 1], [2 / 10, 1], [9 / 10, 0], [8 / 10, 0], [95 / 100, 0]]
                 [True, True, False, False, True] (Some (1 / 2)) (Some 0)) 0 0
              (fresh_leaf [[1 / 10, 1], [2 / 10, 1]] [True, True] 0 0)
              (fresh_leaf [[9 / 10, 0], [8 / 10, 0], [95 / 100, 0]] [False, False, True] 0 0))"
    unfolding loc
    by (simp add: scenario_tree_def split_node_def point_set_def scenario_search_five
        get_best_threshold_def make_split_def goes_left_def Let_def PointSet_init_def
        fresh_leaf_def column_def)
  finally have run: "add_training_point (Tree ?a ?l ?r) [95 / 100, 0] True
      = Inr (split_node
              (point_set [[1 / 10, 1], [2 / 10, 1], [9 / 10, 0], [8 / 10, 0], [95 / 100, 0]]
                 [True, True, False, False, True] (Some (1 / 2)) (Some 0)) 0 0
              (fresh_leaf [[1 / 10, 1], [2 / 10, 1]] [True, True] 0 0)
              (fresh_leaf [[9 / 10, 0], [8 / 10, 0], [95 / 100, 0]] [False, False, True] 0 0))" .
  have "add_training_point (scenario_tree 1 0 0 0) [95 / 100, 0] True
      = Inr (split_node
              (point_set [[1 / 10, 1], [2 / 10, 1], [9 / 10, 0], [8 / 10, 0], [95 / 100, 0]]
                 [True, True, False, False, True] (Some (1 / 2)) (Some 0)) 0 0
              (fresh_leaf [[1 / 10, 1], [2 / 10, 1]] [True, True] 0 0)
              (fresh_leaf [[9 / 10, 0], [8 / 10, 0], [95 / 100, 0]] [False, False, True] 0 0))"
    by (subst shape) (rule run)
  with b0 show ?thesis by blast
qed

section \<open>Nodes of height 0\<close>

text \<open>
  C9, the claim as stated fails: \<open>build_tree\<close> on a node of height 0 is not a no-op. The
  leaf below has seen one insertion (its counter is 1, as \<open>add_training_point\<close> leaves it
  when beta is 1 and the leaf holds two points); \<open>build_tree\<close> resets the counter.
\<close>

theorem build_tree_leaf_resets_counter:
  "add_training_point (fresh_leaf [[1, 0], [2, 0]] [True, False] 0 1) [3, 0] True
     = Inr (fresh_leaf [[1, 0], [2, 0]] [True, False] 1 1)
   \<and> build_tree (fresh_leaf [[1, 0], [2, 0]] [True, False] 1 1)
     = Inr (fresh_leaf [[1, 0], [2, 0]] [True, False] 0 1)
   \<and> build_tree (fresh_leaf [[1, 0], [2, 0]] [True, False] 1 1)
     \<noteq> Inr (fresh_leaf [[1, 0], [2, 0]] [True, False] 1 1)"
  by (simp add: fresh_leaf_def point_set_def add_local_def rebuild_due_def Let_def)

lemma add_keeps_leaves:
  "add_training_point t q lab = Inr t' \<Longrightarrow> \<not> add_rebuilds t q lab
   \<Longrightarrow> leaf_nodes t' = leaf_nodes t"
proof (induction t q lab arbitrary: t' rule: add_training_point.induct)
  case (1 a l r q lab)
  from "1.prems" obtain a2 where a2: "add_local a q lab = Inr a2"
    by (cases "add_local a q lab") auto
  from "1.prems" a2 have nd: "\<not> rebuild_due a2"
    by (auto split: if_splits)
  have ha: "h a2 = h a" using add_local_fields [OF a2] by simp
  show ?case
  proof (cases "h a = 0")
    case True
    then have "a2 = a\<lparr>counter := counter a + 1\<rparr>"
      using a2 add_local_leaf [of a q lab] by simp
    with "1.prems" a2 nd True show ?thesis by auto
  next
    case False
    with ha have h2: "h a2 \<noteq> 0" by simp
    from "1.prems" a2 nd h2 obtain g where g: "route_left a2 q = Inr g"
      by (cases "route_left a2 q") auto
    show ?thesis
    proof (cases g)
      case True
      from "1.prems"(1) a2 nd h2 g True obtain child child' where
        c: "l = Some child" "add_training_point child q lab = Inr child'"
           "t' = Tree a2 (Some child') r"
        by (auto split: option.splits sum.splits)
      from "1.prems"(2) a2 nd h2 g True c have "\<not> add_rebuilds child q lab" by simp
      from "1.IH"(1) [OF a2 nd h2 g True c(1) c(2) this]
      have "leaf_nodes child' = leaf_nodes child" .
      with c ha False show ?thesis by simp
    next
      case False
      from "1.prems"(1) a2 nd h2 g False obtain child child' where
        c: "r = Some child" "add_training_point child q lab = Inr child'"
           "t' = Tree a2 l (Some child')"
        by (auto split: option.splits sum.splits)
      from "1.prems"(2) a2 nd h2 g False c have "\<not> add_rebuilds child q lab" by simp
      from "1.IH"(2) [OF a2 nd h2 g False c(1) c(2) this]
      have "leaf_nodes child' = leaf_nodes child" .
      with c ha \<open>h a \<noteq> 0\<close> show ?thesis by simp
    qed
  qed
qed

lemma del_keeps_leaves:
  "del_training_point t q lab = Inr t' \<Longrightarrow> \<not> del_rebuilds t q lab
   \<Longrightarrow> leaf_nodes t' = leaf_nodes t"
proof (induction t q lab arbitrary: t' rule: del_training_point.induct)
  case (1 a l r q lab)
  from "1.prems" obtain a2 where a2: "del_local a q = Inr a2"
    by (cases "del_local a q") auto
  from "1.prems" a2 have nd: "\<not> rebuild_due a2"
    by (auto split: if_splits)
  have ha: "h a2 = h a" using del_local_fields [OF a2] by simp
  show ?case
  proof (cases "h a = 0")
    case True
    then have "a2 = a\<lparr>counter := counter a + 1\<rparr>"
      using a2 del_local_leaf by blast
    with "1.prems" a2 nd True show ?thesis by auto
  next
    case False
    with ha have h2: "h a2 \<noteq> 0" by simp
    from "1.prems" a2 nd h2 obtain g where g: "route_left a2 q = Inr g"
      by (cases "route_left a2 q") auto
    show ?thesis
    proof (cases g)
      case True
      from "1.prems"(1) a2 nd h2 g True obtain child child' where
        c: "l = Some child" "del_training_point child q lab = Inr child'"
           "t' = Tree a2 (Some child') r"
        by (auto split: option.splits sum.splits)
      from "1.prems"(2) a2 nd h2 g True c have "\<not> del_rebuilds child q lab" by simp
      from "1.IH"(1) [OF a2 nd h2 g True c(1) c(2) this]
      have "leaf_nodes child' = leaf_nodes child" .
      with c ha False show ?thesis by simp
    next
      case False
      from "1.prems"(1) a2 nd h2 g False obtain child child' where
        c: "r = Some child" "del_training_point child q lab = Inr child'"
           "t' = Tree a2 l (Some child')"
        by (auto split: option.splits sum.splits)
      from "1.prems"(2) a2 nd h2 g False c have "\<not> del_rebuilds child q lab" by simp
      from "1.IH"(2) [OF a2 nd h2 g False c(1) c(2) this]
      have "leaf_nodes child' = leaf_nodes child" .
      with c ha \<open>h a \<noteq> 0\<close> show ?thesis by simp
    qed
  qed
qed

text \<open>
  C9, amended. A node of height 0 keeps its height, its point set, its split attributes
  and its children under every operation on the node itself: \<open>build_tree\<close> succeeds and
  changes nothing but the operation counter, which it resets to 0; a successful
  \<open>add_training_point\<close> or \<open>del_training_point\<close> changes nothing but the operation
  counter. Moreover an insertion or deletion anywhere in a tree that meets no rebuild
  condition on its way leaves every reachable leaf as it was, operation counters apart.
\<close>

theorem leaf_keeps_all_but_counter:
  assumes "h a = 0"
  shows "build_tree (Tree a l r) = Inr (Tree (a\<lparr>counter := 0\<rparr>) l r)
       \<and> (\<forall>q lab t'. add_training_point (Tree a l r) q lab = Inr t'
            \<longrightarrow> (\<exists>c. t' = Tree (a\<lparr>counter := c\<rparr>) l r))
       \<and> (\<forall>q lab t'. del_training_point (Tree a l r) q lab = Inr t'
            \<longrightarrow> (\<exists>c. t' = Tree (a\<lparr>counter := c\<rparr>) l r))
       \<and> (\<forall>t q lab t'. add_training_point t q lab = Inr t' \<and> \<not> add_rebuilds t q lab
            \<longrightarrow> leaf_nodes t' = leaf_nodes t)
       \<and> (\<forall>t q lab t'. del_training_point t q lab = Inr t' \<and> \<not> del_rebuilds t q lab
            \<longrightarrow> leaf_nodes t' = leaf_nodes t)"
proof -
  have b: "build_tree (Tree a l r) = Inr (Tree (a\<lparr>counter := 0\<rparr>) l r)"
    using assms by (rule build_tree_leaf)
  have ad: "\<exists>c. t' = Tree (a\<lparr>counter := c\<rparr>) l r"
    if "add_training_point (Tree a l r) q lab = Inr t'" for q lab t'
    using that assms add_local_leaf [OF assms, of q lab]
    by (auto simp: Let_def split: if_splits sum.splits)
  have de: "\<exists>c. t' = Tree (a\<lparr>counter := c\<rparr>) l r"
    if "del_training_point (Tree a l r) q lab = Inr t'" for q lab t'
  proof (cases "del_local a q")
    case (Inl e)
    with that show ?thesis by simp
  next
    case (Inr a2)
    then have a2: "a2 = a\<lparr>counter := counter a + 1\<rparr>"
      using assms del_local_leaf by blast
    with that Inr assms show ?thesis
      by (auto simp: Let_def split: if_splits)
  qed
  from b ad de add_keeps_leaves del_keeps_leaves show ?thesis by blast
qed

theorem leaf_keeps_all_but_counter_witness:
  "build_tree (fresh_leaf [[1, 0], [2, 0]] [True, False] 1 1)
     = Inr (fresh_leaf [[1, 0], [2, 0]] [True, False] 0 1)"
proof -
  let ?a = "attrs (fresh_leaf [[1, 0], [2, 0]] [True, False] 1 1)"
  have leaf: "h ?a = 0" by (simp add: fresh_leaf_def)
  have shape: "fresh_leaf [[1, 0], [2, 0]] [True, False] 1 1 = Tree ?a None None"
    by (simp add: fresh_leaf_def)
  have reset: "Tree (?a\<lparr>counter := 0\<rparr>) None None = fresh_leaf [[1, 0], [2, 0]] [True, False] 0 1"
    by (simp add: fresh_leaf_def)
  from leaf_keeps_all_but_counter [OF leaf, of None None]
  have "build_tree (Tree ?a None None) = Inr (Tree (?a\<lparr>counter := 0\<rparr>) None None)"
    by blast
  with shape reset show ?thesis by simp
qed

section \<open>Insertion followed by deletion\<close>













section \<open>Deletion ignores the label\<close>

text \<open>
  C10. \<open>del_training_point\<close> does not depend on its label argument: for every tree, every
  feature tuple and any two labels, the two calls give the same result (the same tree, or
  the same error).
\<close>

theorem del_label_independent:
  "del_training_point t q lab1 = del_training_point t q lab2"
  by (induction t q lab1 rule: del_training_point.induct)
     (simp split: sum.splits option.splits)

theorem del_label_independent_witness:
  "del_training_point (scenario_tree 1 0 0 10) [1 / 10, 1] True
   = del_training_point (scenario_tree 1 0 0 10) [1 / 10, 1] False"
  by (rule del_label_independent)

section \<open>The split search: candidates and invariant\<close>

lemma evaluate_cases:
  "evaluate ps msp i ft vs k c st = st
   \<or> (\<exists>g. evaluate ps msp i ft vs k c st
           = st\<lparr>res := (Some i, Some g),
                threshold_found := (if ft = REAL then Some (cut_threshold vs k) else threshold_found st),
                category_id_found := (if ft = CLASSES then Some (vs ! k) else category_id_found st)\<rparr>)"
  by (auto simp: evaluate_def Let_def split: prod.splits)

lemma evaluate_unusable: "unusable msp c \<Longrightarrow> evaluate ps msp i ft vs k c st = st"
  by (auto simp: evaluate_def unusable_def Let_def split: prod.splits)

lemma fold_invariant:
  "(\<And>x s. x \<in> set xs \<Longrightarrow> P s \<Longrightarrow> P (f x s)) \<Longrightarrow> P s \<Longrightarrow> P (fold f xs s)"
  by (induction xs arbitrary: s) auto

lemma fold_fixed: "list_all (\<lambda>x. f x s = s) xs \<Longrightarrow> fold f xs s = s"
  by (induction xs) auto

lemma real_fold_cands:
  "snd (fold (real_step ps msp i vs sl) ks (c, st))
   = fold (\<lambda>kc. evaluate ps msp i REAL vs (fst kc) (snd kc)) (real_cands vs sl ks c) st"
  by (induction ks arbitrary: c st) (auto simp: real_step_def Let_def)

lemma class_fold_cands:
  "class_search ps msp i ft fv vs st
   = fold (\<lambda>kc. evaluate ps msp i ft vs (fst kc) (snd kc))
       (map (\<lambda>k. (k, count_pass fv (labels ps) (vs ! k))) [0..<length vs]) st"
  by (simp add: class_search_def fold_map comp_def class_step_def [abs_def])

lemma feature_step_candidates:
  assumes "list_all (\<lambda>p. i < length p) (features ps)" "i < length (types ps)"
    "length (features ps) \<le> length (labels ps)"
  shows "feature_step ps msp i st
         = Inr (fold (\<lambda>kc. evaluate ps msp i (types ps ! i)
                              (case types ps ! i of REAL \<Rightarrow> sorted_values (column ps i)
                                 | CLASSES \<Rightarrow> unique (column ps i) | BOOLEAN \<Rightarrow> [0])
                              (fst kc) (snd kc))
                  (split_candidates ps i) st)"
  using assms
  by (cases "types ps ! i")
     (simp_all add: feature_step_def Let_def split_candidates_def real_search_def
        real_fold_cands class_fold_cands)

lemma feature_step_unusable:
  assumes "list_all (\<lambda>p. i < length p) (features ps)" "i < length (types ps)"
    "length (features ps) \<le> length (labels ps)"
    "list_all (\<lambda>kc. unusable msp (snd kc)) (split_candidates ps i)"
  shows "feature_step ps msp i st = Inr st"
proof -
  have "list_all (\<lambda>kc. evaluate ps msp i (types ps ! i)
                              (case types ps ! i of REAL \<Rightarrow> sorted_values (column ps i)
                                 | CLASSES \<Rightarrow> unique (column ps i) | BOOLEAN \<Rightarrow> [0])
                              (fst kc) (snd kc) st = st) (split_candidates ps i)"
    using assms(4) by (simp add: list_all_iff evaluate_unusable)
  then show ?thesis
    using feature_step_candidates [OF assms(1-3)] by (simp add: fold_fixed)
qed

lemma feature_loop_fixed:
  "list_all (\<lambda>i. feature_step ps msp i st = Inr st) ids \<Longrightarrow> feature_loop ps msp ids st = Inr st"
  by (induction ids) auto


lemma search_ok_init: "search_ok ps init_search"
  by (simp add: search_ok_def init_search_def)

lemma evaluate_ok:
  assumes "search_ok ps st" "i < length (types ps)"
    and "types ps ! i = REAL \<Longrightarrow> ft = REAL \<and> vs = sorted_values (column ps i) \<and> value_change vs k"
  shows "search_ok ps (evaluate ps msp i ft vs k c st)"
proof -
  from evaluate_cases [of ps msp i ft vs k c st] show ?thesis
  proof
    assume "evaluate ps msp i ft vs k c st = st"
    with assms(1) show ?thesis by simp
  next
    assume "\<exists>g. evaluate ps msp i ft vs k c st
           = st\<lparr>res := (Some i, Some g),
                threshold_found := (if ft = REAL then Some (cut_threshold vs k) else threshold_found st),
                category_id_found := (if ft = CLASSES then Some (vs ! k) else category_id_found st)\<rparr>"
    then obtain g where "evaluate ps msp i ft vs k c st
           = st\<lparr>res := (Some i, Some g),
                threshold_found := (if ft = REAL then Some (cut_threshold vs k) else threshold_found st),
                category_id_found := (if ft = CLASSES then Some (vs ! k) else category_id_found st)\<rparr>"
      by blast
    with assms(2,3) show ?thesis
      by (auto simp: search_ok_def)
  qed
qed

lemma real_step_ok:
  assumes "search_ok ps (snd cst)" "i < length (types ps)" "types ps ! i = REAL"
    "vs = sorted_values (column ps i)" "k < length vs"
  shows "search_ok ps (snd (real_step ps msp i vs sl k cst))"
proof (cases "k = 0 \<or> (k > 0 \<and> vs ! k = vs ! (k - 1))")
  case True
  with assms(1) show ?thesis by (simp add: real_step_def Let_def)
next
  case False
  with assms(5) have "value_change vs k" by (auto simp: value_change_def)
  with assms have "search_ok ps (evaluate ps msp i REAL vs k (move_point sl k (fst cst)) (snd cst))"
    by (intro evaluate_ok) auto
  with False show ?thesis by (auto simp: real_step_def Let_def)
qed

lemma real_search_ok:
  assumes "search_ok ps st" "i < length (types ps)" "types ps ! i = REAL"
  shows "search_ok ps (real_search ps msp i (column ps i) st)"
proof -
  let ?vs = "sorted_values (column ps i)"
  let ?sl = "sorted_labels_of ps (column ps i)"
  have "search_ok ps (snd (fold (real_step ps msp i ?vs ?sl) [0..<length ?vs] (start_counts ps, st)))"
  proof (rule fold_invariant [where P = "\<lambda>cst. search_ok ps (snd cst)"])
    show "search_ok ps (snd (start_counts ps, st))" using assms(1) by simp
  next
    fix k and cst :: "counts \<times> search"
    assume "k \<in> set [0..<length ?vs]" "search_ok ps (snd cst)"
    then show "search_ok ps (snd (real_step ps msp i ?vs ?sl k cst))"
      using assms(2,3) by (intro real_step_ok) auto
  qed
  then show ?thesis by (simp add: real_search_def Let_def)
qed

lemma class_search_ok:
  assumes "search_ok ps st" "i < length (types ps)" "types ps ! i \<noteq> REAL"
  shows "search_ok ps (class_search ps msp i ft fv vs st)"
  unfolding class_search_def
proof (rule fold_invariant [where P = "search_ok ps"])
  show "search_ok ps st" by (rule assms(1))
next
  fix k s
  assume "search_ok ps s"
  then show "search_ok ps (class_step ps msp i ft fv vs k s)"
    unfolding class_step_def using assms(2,3) by (intro evaluate_ok) auto
qed

lemma feature_step_ok:
  assumes "feature_step ps msp i st = Inr st'" "search_ok ps st"
  shows "search_ok ps st'"
proof -
  from assms(1) have i: "i < length (types ps)"
    by (auto simp: feature_step_def split: if_splits)
  show ?thesis
  proof (cases "types ps ! i")
    case REAL
    with assms(1) have "st' = real_search ps msp i (column ps i) st"
      by (auto simp: feature_step_def Let_def split: if_splits)
    with real_search_ok [OF assms(2) i REAL] show ?thesis by simp
  next
    case CLASSES
    with assms(1) have "st' = class_search ps msp i CLASSES (column ps i) (unique (column ps i)) st"
      by (auto simp: feature_step_def Let_def split: if_splits)
    with class_search_ok [OF assms(2) i] CLASSES show ?thesis by simp
  next
    case BOOLEAN
    with assms(1) have "st' = class_search ps msp i BOOLEAN (column ps i) [0] st"
      by (auto simp: feature_step_def Let_def split: if_splits)
    with class_search_ok [OF assms(2) i] BOOLEAN show ?thesis by simp
  qed
qed

lemma feature_loop_ok:
  "feature_loop ps msp ids st = Inr st' \<Longrightarrow> search_ok ps st \<Longrightarrow> search_ok ps st'"
proof (induction ids arbitrary: st)
  case Nil
  then show ?case by simp
next
  case (Cons i ids)
  from Cons.prems(1) obtain st1 where s1: "feature_step ps msp i st = Inr st1"
    and rest: "feature_loop ps msp ids st1 = Inr st'"
    by (auto split: sum.splits)
  from feature_step_ok [OF s1 Cons.prems(2)] have "search_ok ps st1" .
  from Cons.IH [OF rest this] show ?case .
qed

lemma get_best_gain_winner:
  assumes "get_best_gain ps msp = Inr ((Some i, g), ps')"
  shows "\<exists>st. search_ok ps st \<and> res st = (Some i, g)
           \<and> ps' = ps\<lparr>threshold := (if types ps ! i = REAL then threshold_found st else threshold ps),
                       category_id := (if types ps ! i = CLASSES then category_id_found st
                                       else category_id ps),
                       selected_feature_id := Some i\<rparr>"
proof -
  from assms have ne: "length (features ps) \<noteq> 0"
    by (auto simp: get_best_gain_def)
  with assms obtain st where
    st: "feature_loop ps msp [0..<length (hd (features ps))] init_search = Inr st"
    by (auto simp: get_best_gain_def split: sum.splits)
  have ok: "search_ok ps st"
    using feature_loop_ok [OF st search_ok_init] .
  from assms ne st have "res st = (Some i, g)
      \<and> ps' = ps\<lparr>threshold := (if types ps ! i = REAL then threshold_found st else threshold ps),
                       category_id := (if types ps ! i = CLASSES then category_id_found st
                                       else category_id ps),
                       selected_feature_id := Some i\<rparr>"
    by (auto simp: get_best_gain_def split: option.splits)
  with ok show ?thesis by blast
qed

lemma get_best_gain_none:
  assumes "get_best_gain ps msp = Inr ((None, g), ps')"
  shows "ps' = ps"
  using assms by (auto simp: get_best_gain_def split: if_splits sum.splits option.splits)

section \<open>No usable split\<close>

text \<open>
  C7. \<open>get_best_gain\<close> on a point set without points returns the pair (none, none) and
  leaves the point set as it is; so it does on a well-shaped point set with points in
  which every candidate of every column has an empty side or a side below the floor. The
  two results are the same value.
\<close>

theorem no_split_returns_sentinel:
  "(features ps = [] \<longrightarrow> get_best_gain ps msp = Inr ((None, None), ps))
   \<and> (features ps \<noteq> [] \<and> well_shaped ps \<and> no_usable_split ps msp
        \<longrightarrow> get_best_gain ps msp = Inr ((None, None), ps))"
proof (intro conjI impI)
  assume "features ps = []"
  then show "get_best_gain ps msp = Inr ((None, None), ps)"
    by (simp add: get_best_gain_def)
next
  assume a: "features ps \<noteq> [] \<and> well_shaped ps \<and> no_usable_split ps msp"
  define n where "n = length (hd (features ps))"
  from a have ne: "features ps \<noteq> []" by (rule conjunct1)
  from a have ws: "well_shaped ps" by (rule conjunct2 [THEN conjunct1])
  from a have nu: "no_usable_split ps msp" by (rule conjunct2 [THEN conjunct2])
  from ws have rows: "list_all (\<lambda>p. length p = n) (features ps)"
    unfolding well_shaped_def n_def by (rule conjunct1)
  from ws have tys: "n \<le> length (types ps)"
    unfolding well_shaped_def n_def by (rule conjunct2 [THEN conjunct1])
  from ws have labs: "length (features ps) \<le> length (labels ps)"
    unfolding well_shaped_def by (rule conjunct2 [THEN conjunct2])
  from nu have cands:
    "list_all (\<lambda>i. list_all (\<lambda>kc. unusable msp (snd kc)) (split_candidates ps i)) [0..<n]"
    unfolding no_usable_split_def n_def .
  have step: "feature_step ps msp i init_search = Inr init_search" if "i < n" for i
  proof (rule feature_step_unusable)
    show "list_all (\<lambda>p. i < length p) (features ps)"
      using rows that by (auto simp: list_all_iff)
    show "i < length (types ps)"
      using tys that by simp
    show "length (features ps) \<le> length (labels ps)"
      by (rule labs)
    show "list_all (\<lambda>kc. unusable msp (snd kc)) (split_candidates ps i)"
      using cands that by (simp add: list_all_iff)
  qed
  then have "list_all (\<lambda>i. feature_step ps msp i init_search = Inr init_search) [0..<n]"
    by (simp add: list_all_iff)
  then have "feature_loop ps msp [0..<n] init_search = Inr init_search"
    by (rule feature_loop_fixed)
  with ne show "get_best_gain ps msp = Inr ((None, None), ps)"
    by (simp add: get_best_gain_def init_search_def n_def)
qed

theorem no_split_returns_sentinel_witness:
  "get_best_gain (point_set [] [] None None) (Some 2)
     = Inr ((None, None), point_set [] [] None None)
   \<and> get_best_gain (point_set [[1, 0], [2, 0]] [True, False] None None) (Some 2)
     = Inr ((None, None), point_set [[1, 0], [2, 0]] [True, False] None None)"
proof -
  let ?e = "point_set [] [] None None"
  let ?p = "point_set [[1, 0], [2, 0]] [True, False] None None"
  have e: "features ?e = []" by (simp add: point_set_def)
  have p: "features ?p \<noteq> [] \<and> well_shaped ?p \<and> no_usable_split ?p (Some 2)"
    by code_simp
  have r1: "get_best_gain ?e (Some 2) = Inr ((None, None), ?e)"
    by (rule no_split_returns_sentinel [THEN conjunct1, THEN mp, OF e])
  have r2: "get_best_gain ?p (Some 2) = Inr ((None, None), ?p)"
    by (rule no_split_returns_sentinel [THEN conjunct2, THEN mp, OF p])
  from r1 r2 show ?thesis by (rule conjI)
qed

section \<open>Continuous columns\<close>

text \<open>
  C6. In the loop over a continuous column, a sorted position \<open>j\<close> that is 0 or whose value
  equals its predecessor's leaves the search state as it is (no candidate is evaluated
  there, so equal neighbours never give two cuts); a step that changes the search state
  records the threshold of line 157, \<open>values[j]\<close> if \<open>j = 0\<close> and the midpoint of
  \<open>values[j - 1]\<close> and \<open>values[j]\<close> otherwise. When \<open>get_best_gain\<close> returns a continuous
  winner, the threshold it stores is that expression at a position \<open>k\<close> of the sorted
  column where the value differs from its predecessor (so \<open>k > 0\<close>, and the stored
  threshold is the midpoint).
\<close>

theorem continuous_cut_positions_and_threshold:
  "(j = 0 \<or> values ! j = values ! (j - 1)
      \<longrightarrow> snd (real_step ps msp i values sl j cst) = snd cst)
   \<and> (snd (real_step ps msp i values sl j cst) \<noteq> snd cst
      \<longrightarrow> threshold_found (snd (real_step ps msp i values sl j cst))
          = Some (if j = 0 then values ! j else (values ! (j - 1) + values ! j) / 2))
   \<and> (get_best_gain ps msp = Inr ((Some i, g), ps') \<and> types ps ! i = REAL
      \<longrightarrow> (\<exists>k. 0 < k \<and> k < length (sorted_values (column ps i))
             \<and> sorted_values (column ps i) ! k \<noteq> sorted_values (column ps i) ! (k - 1)
             \<and> threshold ps'
                 = Some (if k = 0 then sorted_values (column ps i) ! k
                         else (sorted_values (column ps i) ! (k - 1)
                               + sorted_values (column ps i) ! k) / 2)))"
proof (intro conjI impI)
  assume "j = 0 \<or> values ! j = values ! (j - 1)"
  then show "snd (real_step ps msp i values sl j cst) = snd cst"
    by (auto simp: real_step_def Let_def)
next
  assume ch: "snd (real_step ps msp i values sl j cst) \<noteq> snd cst"
  let ?c = "move_point sl j (fst cst)"
  from ch have ev: "snd (real_step ps msp i values sl j cst)
                      = evaluate ps msp i REAL values j ?c (snd cst)"
    by (auto simp: real_step_def Let_def split: if_splits)
  with ch have "evaluate ps msp i REAL values j ?c (snd cst) \<noteq> snd cst" by simp
  with evaluate_cases [of ps msp i REAL "values" j ?c "snd cst"]
  have "threshold_found (evaluate ps msp i REAL values j ?c (snd cst))
          = Some (cut_threshold values j)"
    by auto
  with ev show "threshold_found (snd (real_step ps msp i values sl j cst))
          = Some (if j = 0 then values ! j else (values ! (j - 1) + values ! j) / 2)"
    by (simp add: cut_threshold_def)
next
  assume a: "get_best_gain ps msp = Inr ((Some i, g), ps') \<and> types ps ! i = REAL"
  let ?vs = "sorted_values (column ps i)"
  from a get_best_gain_winner [of ps msp i g ps'] obtain st where
    st: "search_ok ps st" "res st = (Some i, g)"
        "ps' = ps\<lparr>threshold := (if types ps ! i = REAL then threshold_found st else threshold ps),
                   category_id := (if types ps ! i = CLASSES then category_id_found st
                                   else category_id ps),
                   selected_feature_id := Some i\<rparr>"
    by blast
  from st(1,2) a obtain k where
    k: "value_change ?vs k" "threshold_found st = Some (cut_threshold ?vs k)"
    by (auto simp: search_ok_def)
  from st(3) a k(2) have "threshold ps' = Some (cut_threshold ?vs k)" by simp
  with k(1) show "\<exists>k. 0 < k \<and> k < length ?vs \<and> ?vs ! k \<noteq> ?vs ! (k - 1)
             \<and> threshold ps' = Some (if k = 0 then ?vs ! k else (?vs ! (k - 1) + ?vs ! k) / 2)"
    by (auto simp: value_change_def cut_threshold_def)
qed

theorem continuous_cut_positions_and_threshold_witness:
  "\<exists>k. 0 < k \<and> k < length (sorted_values [1 / 10, 1 / 5, 9 / 10, 4 / 5])
       \<and> sorted_values [1 / 10, 1 / 5, 9 / 10, 4 / 5] ! k
           \<noteq> sorted_values [1 / 10, 1 / 5, 9 / 10, 4 / 5] ! (k - 1)
       \<and> (1 / 2 :: rat)
           = (sorted_values [1 / 10, 1 / 5, 9 / 10, 4 / 5] ! (k - 1)
              + sorted_values [1 / 10, 1 / 5, 9 / 10, 4 / 5] ! k) / 2"
proof -
  let ?ps = "\<lparr>types = [REAL, CLASSES],
      features = [[1 / 10, 1], [1 / 5, 1], [9 / 10, 0], [4 / 5, 0]],
      labels = [True, True, False, False],
      threshold = None, selected_feature_id = None, category_id = None\<rparr>"
  let ?ps' = "\<lparr>types = [REAL, CLASSES],
      features = [[1 / 10, 1], [1 / 5, 1], [9 / 10, 0], [4 / 5, 0]],
      labels = [True, True, False, False],
      threshold = Some (1 / 2), selected_feature_id = Some 0, category_id = None\<rparr>"
  have run: "get_best_gain ?ps (Some 1) = Inr ((Some 0, Some (1 / 2)), ?ps') \<and> types ?ps ! 0 = REAL"
    using scenario_search [of 1 0] by simp
  have col: "column ?ps 0 = [1 / 10, 1 / 5, 9 / 10, 4 / 5]"
    by (simp add: column_def)
  from continuous_cut_positions_and_threshold [of 0 "[]" ?ps "Some 1" 0 "[]" "((0, 0, 0, 0), init_search)"
      "Some (1 / 2)" ?ps'] run
  have "\<exists>k. 0 < k \<and> k < length (sorted_values (column ?ps 0))
             \<and> sorted_values (column ?ps 0) ! k \<noteq> sorted_values (column ?ps 0) ! (k - 1)
             \<and> threshold ?ps'
                 = Some (if k = 0 then sorted_values (column ?ps 0) ! k
                         else (sorted_values (column ?ps 0) ! (k - 1)
                               + sorted_values (column ?ps 0) ! k) / 2)"
    by blast
  then show ?thesis
    unfolding col by auto
qed

section \<open>The threshold of the winner\<close>

text \<open>
  C4, the claim as stated fails: after \<open>get_best_gain\<close> has run on a point set and found no
  split (here a single point, which has no candidate), \<open>get_best_threshold\<close> still fails
  with the invalid-state error.
\<close>

theorem threshold_fails_after_fruitless_search:
  "get_best_gain (point_set [[1, 0]] [True] None None) (Some 1)
     = Inr ((None, None), point_set [[1, 0]] [True] None None)
   \<and> get_best_threshold (point_set [[1, 0]] [True] None None) = Inl InvalidState
   \<and> search_then_threshold (point_set [[1, 0]] [True] None None) (Some 1) = Inl InvalidState"
proof -
  let ?p = "point_set [[1, 0]] [True] None None"
  have g: "get_best_gain ?p (Some 1) = Inr ((None, None), ?p)"
    by (simp add: search_defs point_set_def upt_rec)
  have t: "get_best_threshold ?p = Inl InvalidState"
    by (simp add: get_best_threshold_def point_set_def)
  from g t show ?thesis
    by (simp add: search_then_threshold_def)
qed

text \<open>
  C4, amended. \<open>get_best_threshold\<close> fails with the invalid-state error if and only if the
  point set has no selected feature. That is so for a point set fresh from its
  constructor, and it stays so after a \<open>get_best_gain\<close> that returns no feature, which
  leaves the point set as it is. After a \<open>get_best_gain\<close> that returns feature \<open>i\<close>,
  \<open>get_best_threshold\<close> returns the stored threshold when feature \<open>i\<close> is continuous, the
  stored category when it is categorical, and none when it is boolean.
\<close>

theorem threshold_fails_iff_no_selected_feature:
  "(get_best_threshold ps = Inl InvalidState \<longleftrightarrow> selected_feature_id ps = None)
   \<and> (PointSet_init fs ls ts = Inr ps0 \<longrightarrow> get_best_threshold ps0 = Inl InvalidState)
   \<and> (get_best_gain ps msp = Inr ((None, g), ps') \<longrightarrow> ps' = ps)
   \<and> (get_best_gain ps msp = Inr ((Some i, g), ps')
        \<longrightarrow> get_best_threshold ps'
            = Inr (case types ps ! i of
                     REAL \<Rightarrow> threshold ps'
                   | BOOLEAN \<Rightarrow> None
                   | CLASSES \<Rightarrow> category_id ps'))"
proof (intro conjI impI)
  show "get_best_threshold ps = Inl InvalidState \<longleftrightarrow> selected_feature_id ps = None"
    by (auto simp: get_best_threshold_def split: option.splits FeaturesTypes.splits)
next
  assume "PointSet_init fs ls ts = Inr ps0"
  then have "selected_feature_id ps0 = None"
    by (auto simp: PointSet_init_def split: if_splits)
  then show "get_best_threshold ps0 = Inl InvalidState"
    by (simp add: get_best_threshold_def)
next
  assume "get_best_gain ps msp = Inr ((None, g), ps')"
  then show "ps' = ps" by (rule get_best_gain_none)
next
  assume a: "get_best_gain ps msp = Inr ((Some i, g), ps')"
  from get_best_gain_winner [OF a] obtain st where
    st: "search_ok ps st" "res st = (Some i, g)"
        "ps' = ps\<lparr>threshold := (if types ps ! i = REAL then threshold_found st else threshold ps),
                   category_id := (if types ps ! i = CLASSES then category_id_found st
                                   else category_id ps),
                   selected_feature_id := Some i\<rparr>"
    by blast
  from st(1,2) have i: "i < length (types ps)"
    by (simp add: search_ok_def)
  from st(3) have "selected_feature_id ps' = Some i" "types ps' = types ps"
    by simp_all
  with i show "get_best_threshold ps'
            = Inr (case types ps ! i of
                     REAL \<Rightarrow> threshold ps'
                   | BOOLEAN \<Rightarrow> None
                   | CLASSES \<Rightarrow> category_id ps')"
    by (simp add: get_best_threshold_def split: FeaturesTypes.splits)
qed

theorem threshold_fails_iff_no_selected_feature_witness:
  "get_best_threshold
     \<lparr>types = [REAL, CLASSES],
      features = [[1 / 10, 1], [1 / 5, 1], [9 / 10, 0], [4 / 5, 0]],
      labels = [True, True, False, False],
      threshold = Some (1 / 2), selected_feature_id = Some 0, category_id = None\<rparr>
   = Inr (Some (1 / 2))"
proof -
  let ?ps = "\<lparr>types = [REAL, CLASSES],
      features = [[1 / 10, 1], [1 / 5, 1], [9 / 10, 0], [4 / 5, 0]],
      labels = [True, True, False, False],
      threshold = None, selected_feature_id = None, category_id = None\<rparr>"
  let ?ps' = "\<lparr>types = [REAL, CLASSES],
      features = [[1 / 10, 1], [1 / 5, 1], [9 / 10, 0], [4 / 5, 0]],
      labels = [True, True, False, False],
      threshold = Some (1 / 2), selected_feature_id = Some 0, category_id = None\<rparr>"
  have run: "get_best_gain ?ps (Some 1) = Inr ((Some 0, Some (1 / 2)), ?ps')"
    using scenario_search [of 1 0] by simp
  from threshold_fails_iff_no_selected_feature
         [of ?ps "[]" "[]" "[]" ?ps "Some 1" "Some (1 / 2)" ?ps' 0] run
  have "get_best_threshold ?ps'
            = Inr (case types ?ps ! 0 of
                     REAL \<Rightarrow> threshold ?ps'
                   | BOOLEAN \<Rightarrow> None
                   | CLASSES \<Rightarrow> category_id ?ps')"
    by blast
  then show ?thesis by simp
qed

end
